theory Spec2Isabelle
  imports Main "HOL-Library.Word"
begin

unbundle bit_operations_syntax

section \<open>Data model\<close>

text \<open>
  The extension's value type (\<^verbatim>\<open>struct IPAddress\<close>): a 128-bit signed \<^verbatim>\<open>hugeint_t\<close>
  address and a 32-bit signed mask. Machine integers are words; \<open>sint\<close> reads the signed
  value. The field \<^verbatim>\<open>mask\<close> is called \<open>ip_mask\<close> here, since \<open>mask\<close> is a constant of
  the word library.
\<close>

type_synonym hugeint_t = "128 word"
type_synonym int32_t = "32 word"
type_synonym uint8_t = "8 word"

record IPAddress =
  address :: hugeint_t
  ip_mask :: int32_t

section \<open>Error messages\<close>

text \<open>
  \<^verbatim>\<open>IPAddressError\<close> builds the message
  \<^verbatim>\<open>"Failed to convert string \"" + input + "\" to inet: " + error\<close>
  and hands it to the host's error slot; the parser then returns \<^verbatim>\<open>false\<close>. In the model a
  failed parse is \<open>Inl\<close> of that message. \<open>CHR 0x22\<close> is the double quote.
\<close>

definition IPAddressError :: "string \<Rightarrow> string \<Rightarrow> string" where
  "IPAddressError input error =
     ''Failed to convert string '' @ [CHR 0x22] @ input @ [CHR 0x22] @ '' to inet: '' @ error"

section \<open>The host's string-to-uint8 conversion\<close>

text \<open>
  The scanner's digit test, \<^verbatim>\<open>data[c] >= '0' && data[c] <= '9'\<close>, on the byte value.
\<close>

definition is_digit :: "char \<Rightarrow> bool" where
  "is_digit ch = (48 \<le> (of_char ch :: nat) \<and> (of_char ch :: nat) \<le> 57)"

definition digit_value :: "char \<Rightarrow> nat" where
  "digit_value ch = of_char ch - 48"

definition decimal_value :: "string \<Rightarrow> nat" where
  "decimal_value s = foldl (\<lambda>acc ch. 10 * acc + digit_value ch) 0 s"

text \<open>
  Modelled from the spec: \<^verbatim>\<open>TryCast::Operation<string_t, uint8_t>\<close> is the host engine's
  generic conversion and is not part of this extension's source. The spec requires of it
  that it "rejects empty input, non-digit characters, and values outside [0,255],
  returning a boolean/result rather than throwing"; on a non-empty digit run whose decimal
  value fits it yields that value.
\<close>

definition TryCast_uint8 :: "string \<Rightarrow> uint8_t option" where
  "TryCast_uint8 s =
     (if s = [] \<or> \<not> list_all is_digit s then None
      else if decimal_value s \<le> 255 then Some (of_nat (decimal_value s))
      else None)"

section \<open>The address parser\<close>

text \<open>
  The \<^verbatim>\<open>while\<close> loop of \<^verbatim>\<open>parse_number\<close>: advance the cursor over ASCII digits.
\<close>

function scan_digits :: "string \<Rightarrow> nat \<Rightarrow> nat" where
  "scan_digits input c =
     (if c < length input \<and> is_digit (input ! c) then scan_digits input (c + 1) else c)"
  by pat_completeness auto
termination
  by (relation "measure (\<lambda>(input, c). length input - c)") auto

declare scan_digits.simps [simp del]

lemma scan_digits_ge: "c \<le> scan_digits input c"
proof (induction input c rule: scan_digits.induct)
  case (1 input c)
  show ?case
  proof (cases "c < length input \<and> is_digit (input ! c)")
    case True
    with 1 have "c + 1 \<le> scan_digits input (c + 1)" by simp
    with True show ?thesis by (subst scan_digits.simps) simp
  next
    case False
    then show ?thesis by (subst scan_digits.simps) auto
  qed
qed

lemma scan_digits_le: "c \<le> length input \<Longrightarrow> scan_digits input c \<le> length input"
proof (induction input c rule: scan_digits.induct)
  case (1 input c)
  show ?case
  proof (cases "c < length input \<and> is_digit (input ! c)")
    case True
    with 1 have "scan_digits input (c + 1) \<le> length input" by simp
    with True show ?thesis by (subst scan_digits.simps) simp
  next
    case False
    with 1 show ?thesis by (subst scan_digits.simps) auto
  qed
qed

lemma scan_digits_moved: "scan_digits input c \<noteq> c \<Longrightarrow> c < length input"
  by (subst (asm) scan_digits.simps) (auto split: if_splits)

text \<open>
  The label \<^verbatim>\<open>parse_mask\<close>. \<open>start\<close> and \<open>c\<close> are the values the locals have when the
  jump is taken: the bounds of the fourth octet's digit run. The slash is tested but the
  cursor is not moved, and the conversion is applied to \<^verbatim>\<open>string_t(data + start, c - start)\<close>.
  \<^verbatim>\<open>result.address = address\<close> converts the 32-bit signed accumulator to \<^verbatim>\<open>hugeint_t\<close>
  (sign extension, \<open>scast\<close>); \<^verbatim>\<open>result.mask = mask\<close> widens the unsigned byte (\<open>ucast\<close>).
  The source stores \<^verbatim>\<open>result.address\<close> after every octet; the store after the fourth is
  the one a successful return shows, and after a failed parse the caller drops \<^verbatim>\<open>result\<close>.
\<close>

definition parse_mask :: "string \<Rightarrow> nat \<Rightarrow> nat \<Rightarrow> int32_t \<Rightarrow> string + IPAddress" where
  "parse_mask input start c addr =
     (if c = length input then Inr \<lparr>address = scast addr, ip_mask = 32\<rparr>
      else if input ! c \<noteq> CHR ''/'' then Inl (IPAddressError input ''Expected a slash'')
      else case TryCast_uint8 (take (c - start) (drop start input)) of
             None \<Rightarrow> Inl (IPAddressError input ''Expected a number between 0 and 255'')
           | Some m \<Rightarrow> Inr \<lparr>address = scast addr, ip_mask = ucast m\<rparr>)"

text \<open>
  The labels \<^verbatim>\<open>parse_number\<close> and \<open>parse_dot\<close>, one function per label, a \<^verbatim>\<open>goto\<close> being a
  tail call. \<open>addr\<close> is the local \<^verbatim>\<open>int32_t address\<close>; \<^verbatim>\<open>number << (8 * number_count)\<close> is
  computed on the promoted 32-bit \<^verbatim>\<open>int\<close> and added with wrap-around.
\<close>

function parse_number :: "string \<Rightarrow> nat \<Rightarrow> nat \<Rightarrow> int32_t \<Rightarrow> string + IPAddress"
  and parse_dot :: "string \<Rightarrow> nat \<Rightarrow> nat \<Rightarrow> int32_t \<Rightarrow> string + IPAddress" where
  "parse_number input c number_count addr =
     (let start = c; c' = scan_digits input c in
      if start = c' then Inl (IPAddressError input ''Expected a number'')
      else case TryCast_uint8 (take (c' - start) (drop start input)) of
             None \<Rightarrow> Inl (IPAddressError input ''Expected a number between 0 and 255'')
           | Some number \<Rightarrow>
               (let addr' = addr + push_bit (8 * number_count) (ucast number);
                    number_count' = number_count + 1
                in if number_count' = 4 then parse_mask input start c' addr'
                   else parse_dot input c' number_count' addr'))"
| "parse_dot input c number_count addr =
     (if c = length input \<or> input ! c \<noteq> CHR ''.''
      then Inl (IPAddressError input ''Expected a dot'')
      else parse_number input (c + 1) number_count addr)"
  by pat_completeness auto
termination
proof (relation "measure (\<lambda>x. case x of
          Inl (input, c, number_count, addr) \<Rightarrow> 2 * (length input - c) + 1
        | Inr (input, c, number_count, addr) \<Rightarrow> 2 * (length input - c) + 2)",
    goal_cases)
  case 1
  show ?case by simp
next
  case (2 input c number_count addr start c' number addr' number_count')
  have "c \<le> c'" using 2 scan_digits_ge [of c input] by simp
  moreover have "c \<noteq> c'" using 2 by simp
  moreover have "c < length input" using 2 scan_digits_moved [of input c] by auto
  then have "c' \<le> length input" using 2 scan_digits_le [of c input] by simp
  ultimately show ?case by simp
next
  case (3 input c number_count addr)
  then show ?case by auto
qed

declare parse_number.simps [simp del] parse_dot.simps [simp del]

text \<open>
  \<^verbatim>\<open>TryParseIPAddress\<close>: cursor, octet count and accumulator start at zero and control
  enters at \<^verbatim>\<open>parse_number\<close>.
\<close>

definition TryParseIPAddress :: "string \<Rightarrow> string + IPAddress" where
  "TryParseIPAddress input = parse_number input 0 0 0"


section \<open>The scan as a jump machine\<close>

text \<open>
  The same function read block by block, to count its steps. A configuration is a label
  and the locals \<open>(c, start, number_count, address)\<close>; \<open>step\<close> runs one basic block
  up to its jump or \<^verbatim>\<open>return\<close>. \<open>Scan_loop\<close> is the head of the \<^verbatim>\<open>while\<close> loop; on leaving
  the loop the block runs on to the \<^verbatim>\<open>goto\<close> at the end of \<^verbatim>\<open>parse_number\<close>.
\<close>

datatype label = Label_parse_number | Scan_loop | Label_parse_dot | Label_parse_mask

type_synonym config = "label \<times> nat \<times> nat \<times> nat \<times> int32_t"

fun step :: "string \<Rightarrow> config \<Rightarrow> (string + IPAddress) + config" where
  "step input (Label_parse_number, c, start, number_count, addr) =
     Inr (Scan_loop, c, c, number_count, addr)"
| "step input (Scan_loop, c, start, number_count, addr) =
     (if c < length input \<and> is_digit (input ! c)
      then Inr (Scan_loop, c + 1, start, number_count, addr)
      else if start = c then Inl (Inl (IPAddressError input ''Expected a number''))
      else case TryCast_uint8 (take (c - start) (drop start input)) of
             None \<Rightarrow> Inl (Inl (IPAddressError input ''Expected a number between 0 and 255''))
           | Some number \<Rightarrow>
               (let addr' = addr + push_bit (8 * number_count) (ucast number);
                    number_count' = number_count + 1
                in if number_count' = 4
                   then Inr (Label_parse_mask, c, start, number_count', addr')
                   else Inr (Label_parse_dot, c, start, number_count', addr')))"
| "step input (Label_parse_dot, c, start, number_count, addr) =
     (if c = length input \<or> input ! c \<noteq> CHR ''.''
      then Inl (Inl (IPAddressError input ''Expected a dot''))
      else Inr (Label_parse_number, c + 1, start, number_count, addr))"
| "step input (Label_parse_mask, c, start, number_count, addr) =
     Inl (parse_mask input start c addr)"

text \<open>
  Running with fuel: one unit per block. \<open>None\<close> means the fuel ran out before a
  \<^verbatim>\<open>return\<close>.
\<close>

fun exec :: "nat \<Rightarrow> string \<Rightarrow> config \<Rightarrow> (string + IPAddress) option" where
  "exec 0 input cfg = None"
| "exec (Suc fuel) input cfg =
     (case step input cfg of Inl r \<Rightarrow> Some r | Inr cfg' \<Rightarrow> exec fuel input cfg')"

definition initial_config :: config where
  "initial_config = (Label_parse_number, 0, 0, 0, 0)"

section \<open>The batch conversion\<close>

text \<open>
  \<^verbatim>\<open>UnifiedVectorFormat\<close>: the input column as the loop reads it, through a selection
  vector. Row \<open>i\<close> is cell \<open>idx = sel ! i\<close>; it is null when \<open>validity ! idx\<close> is false
  and holds the text \<open>data ! idx\<close> otherwise.
\<close>

record UnifiedVectorFormat =
  sel :: "nat list"
  validity :: "bool list"
  data :: "string list"

text \<open>
  What the call writes: the two child arrays of the result, typed as the pointers the
  code takes (\<^verbatim>\<open>hugeint_t *\<close>, \<^verbatim>\<open>int32_t *\<close>), the result's validity flags (false is null)
  and the error slot of the cast parameters. The caller provides arrays of at least
  \<open>count\<close> entries; a list update beyond the length leaves the list as it is.

  \<open>parser_calls\<close> is not a variable of the source. It records, in order, the rows on
  which \<^verbatim>\<open>TryParseIPAddress\<close> was invoked, so that statements about parser invocations
  can be made.
\<close>

record cast_state =
  address_data :: "hugeint_t list"
  mask_data :: "int32_t list"
  result_validity :: "bool list"
  error_message :: "string option"
  parser_calls :: "nat list"

text \<open>
  Modelled from the spec: \<^verbatim>\<open>HandleCastError::AssignError\<close> is host code outside this
  extension's source. The spec has a parser failure "returned as values carrying a fully
  formatted message" that the adapter propagates "unchanged as its own failure": the
  message is stored in the error slot.
\<close>

definition AssignError :: "string \<Rightarrow> cast_state \<Rightarrow> cast_state" where
  "AssignError e st = st\<lparr>error_message := Some e\<rparr>"

text \<open>
  The \<^verbatim>\<open>for\<close> loop of \<^verbatim>\<open>VarcharToINETCast\<close>, from row \<open>i\<close> on. The result is the returned
  \<^verbatim>\<open>bool\<close> and the state left behind. In the source the failing parser itself passes its
  message to \<^verbatim>\<open>AssignError\<close> before the loop returns \<^verbatim>\<open>false\<close>; here the parser returns
  the message and the loop stores it.
\<close>

function cast_loop :: "UnifiedVectorFormat \<Rightarrow> nat \<Rightarrow> nat \<Rightarrow> cast_state \<Rightarrow> bool \<times> cast_state" where
  "cast_loop vdata count i st =
     (if i < count then
        (let idx = sel vdata ! i in
         if \<not> validity vdata ! idx
         then cast_loop vdata count (i + 1)
                (st\<lparr>result_validity := (result_validity st)[i := False]\<rparr>)
         else case TryParseIPAddress (data vdata ! idx) of
                Inl e \<Rightarrow> (False, AssignError e (st\<lparr>parser_calls := parser_calls st @ [i]\<rparr>))
              | Inr inet \<Rightarrow>
                  cast_loop vdata count (i + 1)
                    (st\<lparr>address_data := (address_data st)[i := address inet],
                        mask_data := (mask_data st)[i := ip_mask inet],
                        parser_calls := parser_calls st @ [i]\<rparr>))
      else (True, st))"
  by pat_completeness auto
termination
  by (relation "measure (\<lambda>(vdata, count, i, st). count - i)") auto

declare cast_loop.simps [simp del]

definition VarcharToINETCast :: "UnifiedVectorFormat \<Rightarrow> nat \<Rightarrow> cast_state \<Rightarrow> bool \<times> cast_state" where
  "VarcharToINETCast vdata count st = cast_loop vdata count 0 st"

text \<open>
  \<^verbatim>\<open>INETToVarcharCast\<close> has one statement, \<^verbatim>\<open>throw InternalException("INET to Varchar cast")\<close>.
  A thrown exception is \<open>Inl\<close>; a normal return would be \<open>Inr\<close> of the \<^verbatim>\<open>bool\<close> and the
  result vector.
\<close>

datatype exception = InternalException string

definition INETToVarcharCast :: "'src \<Rightarrow> 'res \<Rightarrow> nat \<Rightarrow> 'par \<Rightarrow> exception + (bool \<times> 'res)" where
  "INETToVarcharCast source result count parameters =
     Inl (InternalException ''INET to Varchar cast'')"

section \<open>Shapes of inputs\<close>

text \<open>
  A digit run is a non-empty string of ASCII digits; an octet run is one whose decimal
  value is at most 255, and \<open>octet_of\<close> is that value as a byte. \<open>stops_scan\<close> holds of a
  remainder at which the digit loop stops.
\<close>

definition digit_run :: "string \<Rightarrow> bool" where
  "digit_run s = (s \<noteq> [] \<and> list_all is_digit s)"

definition octet_run :: "string \<Rightarrow> bool" where
  "octet_run s = (digit_run s \<and> decimal_value s \<le> 255)"

definition octet_of :: "string \<Rightarrow> uint8_t" where
  "octet_of s = of_nat (decimal_value s)"

definition stops_scan :: "string \<Rightarrow> bool" where
  "stops_scan rest = (case rest of [] \<Rightarrow> True | ch # _ \<Rightarrow> \<not> is_digit ch)"

text \<open>
  The accumulator after four rounds of \<^verbatim>\<open>address += number << (8 * number_count)\<close>,
  starting from zero.
\<close>

definition pack4 :: "uint8_t \<Rightarrow> uint8_t \<Rightarrow> uint8_t \<Rightarrow> uint8_t \<Rightarrow> int32_t" where
  "pack4 a b c d = 0 + push_bit (8 * 0) (ucast a) + push_bit (8 * 1) (ucast b)
     + push_bit (8 * 2) (ucast c) + push_bit (8 * 3) (ucast d)"

text \<open>Row \<open>i\<close> of a batch: its validity flag, its text, and whether the loop gets past it.\<close>

definition row_valid :: "UnifiedVectorFormat \<Rightarrow> nat \<Rightarrow> bool" where
  "row_valid vdata i = validity vdata ! (sel vdata ! i)"

definition row_text :: "UnifiedVectorFormat \<Rightarrow> nat \<Rightarrow> string" where
  "row_text vdata i = data vdata ! (sel vdata ! i)"

definition row_passes :: "UnifiedVectorFormat \<Rightarrow> nat \<Rightarrow> bool" where
  "row_passes vdata i = (if row_valid vdata i then \<not> isl (TryParseIPAddress (row_text vdata i)) else True)"


section \<open>Auxiliary notions for the proofs\<close>

text \<open>
  For the jump machine: the number of blocks a configuration can still run is bounded by
  \<open>potential\<close>; \<open>denotation\<close> is what the function-per-label reading returns from a
  configuration; \<open>config_ok\<close> holds of the configurations a run passes through (inside
  the digit loop, everything from \<open>start\<close> to the cursor is a digit).
\<close>

fun rank :: "label \<Rightarrow> nat" where
  "rank Label_parse_number = 2"
| "rank Scan_loop = 1"
| "rank Label_parse_dot = 0"
| "rank Label_parse_mask = 0"

fun potential :: "string \<Rightarrow> config \<Rightarrow> nat" where
  "potential input (l, c, start, number_count, addr) = 3 * (length input - c) + rank l"

fun denotation :: "string \<Rightarrow> config \<Rightarrow> string + IPAddress" where
  "denotation input (Label_parse_number, c, start, number_count, addr) =
     parse_number input c number_count addr"
| "denotation input (Scan_loop, c, start, number_count, addr) =
     parse_number input start number_count addr"
| "denotation input (Label_parse_dot, c, start, number_count, addr) =
     parse_dot input c number_count addr"
| "denotation input (Label_parse_mask, c, start, number_count, addr) =
     parse_mask input start c addr"

fun config_ok :: "string \<Rightarrow> config \<Rightarrow> bool" where
  "config_ok input (l, c, start, number_count, addr) =
     (c \<le> length input
      \<and> (if l = Scan_loop then scan_digits input start = scan_digits input c else True))"

text \<open>
  For the batch: \<open>parsed vdata j\<close> is the value the parser returns on row \<open>j\<close> when it
  succeeds. \<open>written i P g xs\<close> is the array \<open>xs\<close> after the entries \<open>j < i\<close> with
  \<open>P j\<close> have been overwritten with \<open>g j\<close>, and \<open>after_rows vdata i st\<close> is the state the
  loop has built when rows \<open>0\<close> to \<open>i - 1\<close> have all been passed. \<open>new_calls st st'\<close> are
  the parser invocations recorded between two states.
\<close>

definition parsed :: "UnifiedVectorFormat \<Rightarrow> nat \<Rightarrow> IPAddress" where
  "parsed vdata j = projr (TryParseIPAddress (row_text vdata j))"

definition written :: "nat \<Rightarrow> (nat \<Rightarrow> bool) \<Rightarrow> (nat \<Rightarrow> 'a) \<Rightarrow> 'a list \<Rightarrow> 'a list" where
  "written i P g xs = map (\<lambda>j. if j < i \<and> P j then g j else xs ! j) [0..<length xs]"

definition after_rows :: "UnifiedVectorFormat \<Rightarrow> nat \<Rightarrow> cast_state \<Rightarrow> cast_state" where
  "after_rows vdata i st = st
     \<lparr>address_data := written i (row_valid vdata) (\<lambda>j. address (parsed vdata j)) (address_data st),
      mask_data := written i (row_valid vdata) (\<lambda>j. ip_mask (parsed vdata j)) (mask_data st),
      result_validity := written i (\<lambda>j. \<not> row_valid vdata j) (\<lambda>j. False) (result_validity st),
      parser_calls := parser_calls st @ filter (row_valid vdata) [0..<i]\<rparr>"

definition new_calls :: "cast_state \<Rightarrow> cast_state \<Rightarrow> nat list" where
  "new_calls st st' = drop (length (parser_calls st)) (parser_calls st')"

text \<open>
  Example inputs: the batch \<^verbatim>\<open>["1.2.3.4", null, "bad"]\<close>, the batch \<^verbatim>\<open>["bad", null]\<close>, a
  batch of two nulls, and result arrays of three and of two rows, all rows valid, no error
  set, no parser call recorded.
\<close>

abbreviation batch_ok_null_bad :: UnifiedVectorFormat where
  "batch_ok_null_bad \<equiv>
     \<lparr>sel = [0, 1, 2], validity = [True, False, True], data = [''1.2.3.4'', '''', ''bad'']\<rparr>"

abbreviation batch_bad_null :: UnifiedVectorFormat where
  "batch_bad_null \<equiv> \<lparr>sel = [0, 1], validity = [True, False], data = [''bad'', '''']\<rparr>"

abbreviation batch_null_null :: UnifiedVectorFormat where
  "batch_null_null \<equiv> \<lparr>sel = [0, 1], validity = [False, False], data = ['''', '''']\<rparr>"

abbreviation fresh3 :: cast_state where
  "fresh3 \<equiv> \<lparr>address_data = [0, 0, 0], mask_data = [0, 0, 0],
     result_validity = [True, True, True], error_message = None, parser_calls = []\<rparr>"

abbreviation fresh2 :: cast_state where
  "fresh2 \<equiv> \<lparr>address_data = [0, 0], mask_data = [0, 0],
     result_validity = [True, True], error_message = None, parser_calls = []\<rparr>"

section \<open>Scanning digit runs\<close>

lemma scan_digits_run:
  "list_all is_digit d \<Longrightarrow> stops_scan rest \<Longrightarrow>
   scan_digits (pre @ d @ rest) (length pre) = length pre + length d"
proof (induction d arbitrary: pre)
  case Nil
  then show ?case
    by (subst scan_digits.simps) (auto simp: stops_scan_def nth_append split: list.splits)
next
  case (Cons x d)
  have "scan_digits ((pre @ [x]) @ d @ rest) (length (pre @ [x])) = length (pre @ [x]) + length d"
    using Cons.prems by (intro Cons.IH) auto
  moreover have "scan_digits (pre @ (x # d) @ rest) (length pre)
      = scan_digits (pre @ (x # d) @ rest) (length pre + 1)"
    using Cons.prems by (subst scan_digits.simps) (simp add: nth_append)
  ultimately show ?case by simp
qed

lemma stops_scan_simps [simp]:
  "stops_scan []" "stops_scan (CHR ''.'' # r)" "stops_scan (CHR ''/'' # r)"
  by (simp_all add: stops_scan_def is_digit_def)

lemma TryCast_octet_run: "octet_run d \<Longrightarrow> TryCast_uint8 d = Some (octet_of d)"
  by (simp add: TryCast_uint8_def octet_run_def digit_run_def octet_of_def)

lemma unat_octet_of: "octet_run s \<Longrightarrow> unat (octet_of s) = decimal_value s"
  by (simp add: octet_run_def octet_of_def unat_of_nat)

lemma unat_ucast_8_32: "unat (ucast (x :: uint8_t) :: int32_t) = unat x"
proof -
  have "unat x < 256" using unsigned_less [of x, where ?'a = nat] by simp
  then have "unat x < 2 ^ 32" by simp
  then show ?thesis by (simp add: unsigned_ucast_eq take_bit_nat_eq_self)
qed

text \<open>One round of \<^verbatim>\<open>parse_number\<close> over an octet run that starts at the cursor.\<close>

lemma parse_number_run:
  assumes "octet_run d" and "stops_scan rest"
  shows "parse_number (pre @ d @ rest) (length pre) number_count addr =
     (if number_count + 1 = 4
      then parse_mask (pre @ d @ rest) (length pre) (length pre + length d)
             (addr + push_bit (8 * number_count) (ucast (octet_of d)))
      else parse_dot (pre @ d @ rest) (length pre + length d) (number_count + 1)
             (addr + push_bit (8 * number_count) (ucast (octet_of d))))"
proof -
  from assms have run: "list_all is_digit d" and ne: "d \<noteq> []"
    by (simp_all add: octet_run_def digit_run_def)
  have sc: "scan_digits (pre @ d @ rest) (length pre) = length pre + length d"
    using run assms(2) by (rule scan_digits_run)
  have sub: "take (length d) (drop (length pre) (pre @ d @ rest)) = d" by simp
  show ?thesis
    using ne by (subst parse_number.simps) (simp add: sc sub TryCast_octet_run [OF assms(1)] Let_def)
qed

lemma parse_dot_dot:
  "parse_dot (pre @ CHR ''.'' # rest) (length pre) number_count addr =
   parse_number (pre @ CHR ''.'' # rest) (length pre + 1) number_count addr"
  by (subst parse_dot.simps) (simp add: nth_append)

lemma parse_dot_end:
  "parse_dot input (length input) number_count addr
     = Inl (IPAddressError input ''Expected a dot'')"
  by (subst parse_dot.simps) simp

lemma octet_then_dot:
  assumes "octet_run d" and "input = pre @ d @ CHR ''.'' # rest" and "p = length pre"
    and "number_count < 3" and "p' = p + length d + 1" and "number_count' = number_count + 1"
    and "addr' = addr + push_bit (8 * number_count) (ucast (octet_of d))"
  shows "parse_number input p number_count addr = parse_number input p' number_count' addr'"
proof -
  have "parse_number input p number_count addr = parse_dot input (p + length d) number_count' addr'"
    using parse_number_run [OF assms(1), of "CHR ''.'' # rest" pre number_count addr] assms(2-)
    by simp
  also have "\<dots> = parse_number input p' number_count' addr'"
    using parse_dot_dot [of "pre @ d" rest number_count' addr'] assms(2,3,5) by simp
  finally show ?thesis .
qed

lemma octet_then_end:
  assumes "octet_run d" and "input = pre @ d" and "p = length pre" and "number_count < 3"
  shows "parse_number input p number_count addr = Inl (IPAddressError input ''Expected a dot'')"
proof -
  have "parse_number input p number_count addr
      = parse_dot input (length input) (number_count + 1)
          (addr + push_bit (8 * number_count) (ucast (octet_of d)))"
    using parse_number_run [OF assms(1), of "[]" pre number_count addr] assms(2-) by simp
  then show ?thesis by (simp only: parse_dot_end)
qed

lemma fourth_octet:
  assumes "octet_run d" and "stops_scan rest" and "input = pre @ d @ rest" and "p = length pre"
    and "p' = p + length d" and "addr' = addr + push_bit (8 * 3) (ucast (octet_of d))"
  shows "parse_number input p 3 addr = parse_mask input p p' addr'"
  using parse_number_run [OF assms(1,2), of pre 3 addr] assms(3-) by simp

text \<open>
  Four octet runs separated by dots take the parser to \<^verbatim>\<open>parse_mask\<close> with \<open>start\<close> and
  \<open>c\<close> at the two ends of the fourth run.
\<close>

lemma parse_four:
  assumes "octet_run a" "octet_run b" "octet_run c" "octet_run d" "stops_scan rest"
  shows "TryParseIPAddress (a @ ''.'' @ b @ ''.'' @ c @ ''.'' @ d @ rest) =
    parse_mask (a @ ''.'' @ b @ ''.'' @ c @ ''.'' @ d @ rest)
      (length a + length b + length c + 3) (length a + length b + length c + 3 + length d)
      (pack4 (octet_of a) (octet_of b) (octet_of c) (octet_of d))"
proof -
  let ?inp = "a @ ''.'' @ b @ ''.'' @ c @ ''.'' @ d @ rest"
  let ?A1 = "0 + push_bit (8 * 0) (ucast (octet_of a)) :: int32_t"
  let ?A2 = "?A1 + push_bit (8 * 1) (ucast (octet_of b))"
  let ?A3 = "?A2 + push_bit (8 * 2) (ucast (octet_of c))"
  let ?A4 = "?A3 + push_bit (8 * 3) (ucast (octet_of d))"
  have "parse_number ?inp 0 0 0 = parse_number ?inp (length a + 1) 1 ?A1"
    by (rule octet_then_dot [where d = a and pre = "[]" and rest = "b @ ''.'' @ c @ ''.'' @ d @ rest"])
       (simp_all add: assms)
  also have "\<dots> = parse_number ?inp (length a + length b + 2) 2 ?A2"
    by (rule octet_then_dot [where d = b and pre = "a @ ''.''" and rest = "c @ ''.'' @ d @ rest"])
       (simp_all add: assms)
  also have "\<dots> = parse_number ?inp (length a + length b + length c + 3) 3 ?A3"
    by (rule octet_then_dot [where d = c and pre = "a @ ''.'' @ b @ ''.''" and rest = "d @ rest"])
       (simp_all add: assms)
  also have "\<dots> = parse_mask ?inp (length a + length b + length c + 3)
       (length a + length b + length c + 3 + length d) ?A4"
    by (rule fourth_octet [where d = d and pre = "a @ ''.'' @ b @ ''.'' @ c @ ''.''" and rest = rest])
       (simp_all add: assms)
  finally show ?thesis by (simp only: TryParseIPAddress_def pack4_def)
qed

lemma parse_mask_end:
  "c = length input \<Longrightarrow>
   parse_mask input start c addr = Inr \<lparr>address = scast addr, ip_mask = 32\<rparr>"
  by (simp add: parse_mask_def)

lemma parse_mask_slash:
  assumes "octet_run d" and "input = pre @ d @ CHR ''/'' # rest" and "start = length pre"
    and "c = start + length d"
  shows "parse_mask input start c addr = Inr \<lparr>address = scast addr, ip_mask = ucast (octet_of d)\<rparr>"
proof -
  have "input ! c = CHR ''/''"
    using nth_append_length [of "pre @ d" "CHR ''/''" rest] assms(2-) by simp
  moreover have "c \<noteq> length input" using assms(2-) by simp
  moreover have "take (c - start) (drop start input) = d" using assms(2-) by simp
  ultimately show ?thesis
    by (simp add: parse_mask_def TryCast_octet_run [OF assms(1)])
qed

section \<open>Bytes of the packed address\<close>

lemma pack4_or:
  "pack4 a b c d = ucast a OR push_bit 8 (ucast b) OR push_bit 16 (ucast c) OR push_bit 24 (ucast d)"
proof -
  have 1: "(ucast a :: int32_t) + push_bit 8 (ucast b) = ucast a OR push_bit 8 (ucast b)"
    by (rule disjunctive_add) (auto simp: bit_simps dest: bit_imp_le_length)
  have 2: "((ucast a OR push_bit 8 (ucast b)) :: int32_t) + push_bit 16 (ucast c)
      = (ucast a OR push_bit 8 (ucast b)) OR push_bit 16 (ucast c)"
    by (rule disjunctive_add) (auto simp: bit_simps dest: bit_imp_le_length)
  have 3: "(((ucast a OR push_bit 8 (ucast b)) OR push_bit 16 (ucast c)) :: int32_t)
        + push_bit 24 (ucast d)
      = ((ucast a OR push_bit 8 (ucast b)) OR push_bit 16 (ucast c)) OR push_bit 24 (ucast d)"
    by (rule disjunctive_add) (auto simp: bit_simps dest: bit_imp_le_length)
  have "pack4 a b c d
      = (((ucast a :: int32_t) + push_bit 8 (ucast b)) + push_bit 16 (ucast c)) + push_bit 24 (ucast d)"
    by (simp add: pack4_def)
  also have "\<dots> = ((ucast a OR push_bit 8 (ucast b)) OR push_bit 16 (ucast c)) OR push_bit 24 (ucast d)"
    by (simp only: 1 2 3)
  finally show ?thesis by (simp only: or.assoc)
qed

lemma byte0: "ucast (scast (pack4 a b c d) :: hugeint_t) = a"
  unfolding pack4_or
  by (rule bit_word_eqI) (auto simp: bit_simps dest: bit_imp_le_length)

lemma byte1: "ucast (drop_bit 8 (scast (pack4 a b c d) :: hugeint_t)) = b"
  unfolding pack4_or
  by (rule bit_word_eqI) (auto simp: bit_simps dest: bit_imp_le_length)

lemma byte2: "ucast (drop_bit 16 (scast (pack4 a b c d) :: hugeint_t)) = c"
  unfolding pack4_or
  by (rule bit_word_eqI) (auto simp: bit_simps dest: bit_imp_le_length)

lemma byte3: "ucast (drop_bit 24 (scast (pack4 a b c d) :: hugeint_t)) = d"
  unfolding pack4_or
  by (rule bit_word_eqI) (auto simp: bit_simps dest: bit_imp_le_length)

lemma top_bit_uint8: "bit (d :: uint8_t) 7 = (128 \<le> unat d)"
proof -
  have lt: "unat d < 256" using unsigned_less [of d] by simp
  have "bit d 7 = bit (unat d) 7" by (simp add: bit_unsigned_iff)
  also have "\<dots> = odd (unat d div 128)" by (simp add: bit_iff_odd)
  also have "\<dots> = (128 \<le> unat d)"
  proof (cases "128 \<le> unat d")
    case True
    with lt have "unat d div 128 = 1" by simp
    with True show ?thesis by simp
  next
    case False
    then have "unat d div 128 = 0" by simp
    with False show ?thesis by simp
  qed
  finally show ?thesis .
qed

text \<open>
  The sign of the stored address is bit 7 of the fourth octet: the 32-bit accumulator is
  sign-extended into the 128-bit field.
\<close>

lemma address_negative_iff:
  "sint (scast (pack4 a b c d) :: hugeint_t) < 0 \<longleftrightarrow> 128 \<le> unat d"
proof -
  have "sint (scast (pack4 a b c d) :: hugeint_t) = sint (pack4 a b c d)"
    by (rule sint_up_scast) (simp add: is_up)
  moreover have "(sint (pack4 a b c d) < 0) = bit (pack4 a b c d) 31"
    using bit_last_iff [of "pack4 a b c d"] by simp
  moreover have "bit (pack4 a b c d) 31 = bit d 7"
    unfolding pack4_or by (auto simp: bit_simps dest: bit_imp_le_length)
  ultimately show ?thesis by (simp add: top_bit_uint8)
qed

text \<open>
  So a dotted quad parses to a negative address exactly when its fourth octet is 128 or
  more.
\<close>

lemma address_sign_of_dotted_quad:
  assumes "octet_run a" "octet_run b" "octet_run c" "octet_run d"
  shows "\<exists>r. TryParseIPAddress (a @ ''.'' @ b @ ''.'' @ c @ ''.'' @ d) = Inr r
     \<and> (sint (address r) < 0 \<longleftrightarrow> 128 \<le> decimal_value d)"
proof -
  let ?A = "pack4 (octet_of a) (octet_of b) (octet_of c) (octet_of d)"
  have "TryParseIPAddress (a @ ''.'' @ b @ ''.'' @ c @ ''.'' @ d @ [])
      = Inr \<lparr>address = scast ?A, ip_mask = 32\<rparr>"
    by (subst parse_four [OF assms]) (simp_all add: parse_mask_end)
  then show ?thesis
    using assms(4) by (simp add: address_negative_iff unat_octet_of)
qed

section \<open>The jump machine and the function per label agree\<close>

lemma scan_digits_stop:
  "\<not> (c < length input \<and> is_digit (input ! c)) \<Longrightarrow> scan_digits input c = c"
  by (subst scan_digits.simps) (erule if_not_P)

lemma scan_digits_next:
  "c < length input \<Longrightarrow> is_digit (input ! c) \<Longrightarrow> scan_digits input c = scan_digits input (c + 1)"
  by (subst scan_digits.simps) simp

lemma step_halt:
  "config_ok input cfg \<Longrightarrow> step input cfg = Inl r \<Longrightarrow> r = denotation input cfg"
proof (cases cfg)
  case (fields l c start number_count addr)
  assume ok: "config_ok input cfg" and st: "step input cfg = Inl r"
  show ?thesis
  proof (cases l)
    case Label_parse_number
    with st fields show ?thesis by simp
  next
    case Scan_loop
    with st fields have stop: "\<not> (c < length input \<and> is_digit (input ! c))"
      by (auto split: if_splits)
    then have "scan_digits input start = c"
      using ok fields Scan_loop scan_digits_stop [of c input] by simp
    with st fields Scan_loop stop show ?thesis
      by (auto simp: parse_number.simps [of input start number_count addr] Let_def
            split: if_splits option.splits)
  next
    case Label_parse_dot
    with st fields show ?thesis
      by (auto simp: parse_dot.simps [of input c number_count addr] split: if_splits)
  next
    case Label_parse_mask
    with st fields show ?thesis by simp
  qed
qed

lemma step_cont:
  assumes "config_ok input cfg" and "step input cfg = Inr cfg'"
  shows "config_ok input cfg' \<and> denotation input cfg' = denotation input cfg
    \<and> potential input cfg' < potential input cfg"
proof (cases cfg)
  case (fields l c start number_count addr)
  show ?thesis
  proof (cases l)
    case Label_parse_number
    with assms fields show ?thesis by auto
  next
    case Scan_loop
    show ?thesis
    proof (cases "c < length input \<and> is_digit (input ! c)")
      case True
      with assms fields Scan_loop show ?thesis
        using scan_digits_next [of c input] by auto
    next
      case False
      then have "scan_digits input start = c"
        using assms(1) fields Scan_loop scan_digits_stop [of c input] by simp
      with assms fields Scan_loop False show ?thesis
        by (auto simp: parse_number.simps [of input start number_count addr] Let_def
              split: if_splits option.splits)
    qed
  next
    case Label_parse_dot
    with assms fields show ?thesis
      by (auto simp: parse_dot.simps [of input c number_count addr] split: if_splits)
  next
    case Label_parse_mask
    with assms fields show ?thesis by simp
  qed
qed

lemma exec_enough:
  "config_ok input cfg \<Longrightarrow> potential input cfg < fuel \<Longrightarrow>
   exec fuel input cfg = Some (denotation input cfg)"
proof (induction fuel arbitrary: cfg)
  case 0
  then show ?case by simp
next
  case (Suc fuel)
  show ?case
  proof (cases "step input cfg")
    case (Inl r)
    with Suc.prems step_halt [of input cfg r] show ?thesis by simp
  next
    case (Inr cfg')
    from step_cont [OF Suc.prems(1) Inr] Suc.prems(2)
    have "config_ok input cfg'" "denotation input cfg' = denotation input cfg"
      "potential input cfg' < fuel" by auto
    with Suc.IH [of cfg'] Inr show ?thesis by simp
  qed
qed

section \<open>The loop of the batch conversion\<close>

lemma length_written [simp]: "length (written i P g xs) = length xs"
  by (simp add: written_def)

lemma nth_written:
  "j < length xs \<Longrightarrow> written i P g xs ! j = (if j < i \<and> P j then g j else xs ! j)"
  by (simp add: written_def)

lemma written_0: "written 0 P g xs = xs"
  by (simp add: written_def map_nth)

lemma written_Suc:
  "written (Suc i) P g xs = (if P i then (written i P g xs)[i := g i] else written i P g xs)"
  by (rule nth_equalityI) (auto simp: nth_written nth_list_update less_Suc_eq)

lemma drop_written: "drop i (written i P g xs) = drop i xs"
  by (rule nth_equalityI) (auto simp: nth_written)

lemma cast_loop_done: "\<not> i < count \<Longrightarrow> cast_loop vdata count i st = (True, st)"
  by (subst cast_loop.simps) simp

lemma cast_loop_null:
  "i < count \<Longrightarrow> \<not> row_valid vdata i \<Longrightarrow>
   cast_loop vdata count i st =
     cast_loop vdata count (Suc i) (st\<lparr>result_validity := (result_validity st)[i := False]\<rparr>)"
  by (subst cast_loop.simps) (simp add: row_valid_def)

lemma cast_loop_fail:
  "i < count \<Longrightarrow> row_valid vdata i \<Longrightarrow> TryParseIPAddress (row_text vdata i) = Inl e \<Longrightarrow>
   cast_loop vdata count i st =
     (False, AssignError e (st\<lparr>parser_calls := parser_calls st @ [i]\<rparr>))"
  by (subst cast_loop.simps) (simp add: row_valid_def row_text_def)

lemma cast_loop_ok:
  "i < count \<Longrightarrow> row_valid vdata i \<Longrightarrow> TryParseIPAddress (row_text vdata i) = Inr inet \<Longrightarrow>
   cast_loop vdata count i st =
     cast_loop vdata count (Suc i)
       (st\<lparr>address_data := (address_data st)[i := address inet],
           mask_data := (mask_data st)[i := ip_mask inet],
           parser_calls := parser_calls st @ [i]\<rparr>)"
  by (subst cast_loop.simps) (simp add: row_valid_def row_text_def)

lemma after_rows_0: "after_rows vdata 0 st = st"
  by (simp add: after_rows_def written_0)

lemma after_rows_Suc_null:
  "\<not> row_valid vdata i \<Longrightarrow>
   after_rows vdata (Suc i) st =
     (after_rows vdata i st)\<lparr>result_validity := (result_validity (after_rows vdata i st))[i := False]\<rparr>"
  by (simp add: after_rows_def written_Suc)

lemma after_rows_Suc_valid:
  "row_valid vdata i \<Longrightarrow>
   after_rows vdata (Suc i) st =
     (after_rows vdata i st)
       \<lparr>address_data := (address_data (after_rows vdata i st))[i := address (parsed vdata i)],
        mask_data := (mask_data (after_rows vdata i st))[i := ip_mask (parsed vdata i)],
        parser_calls := parser_calls (after_rows vdata i st) @ [i]\<rparr>"
  by (simp add: after_rows_def written_Suc)

lemma row_passes_valid:
  "row_passes vdata i \<Longrightarrow> row_valid vdata i \<Longrightarrow>
   TryParseIPAddress (row_text vdata i) = Inr (parsed vdata i)"
  by (cases "TryParseIPAddress (row_text vdata i)") (simp_all add: row_passes_def parsed_def)

lemma cast_loop_reach:
  "i \<le> count \<Longrightarrow> \<forall>j<i. row_passes vdata j \<Longrightarrow>
   cast_loop vdata count 0 st = cast_loop vdata count i (after_rows vdata i st)"
proof (induction i)
  case 0
  show ?case by (simp add: after_rows_0)
next
  case (Suc i)
  then have IH: "cast_loop vdata count 0 st = cast_loop vdata count i (after_rows vdata i st)"
    and lt: "i < count" and pass: "row_passes vdata i" by simp_all
  show ?case
  proof (cases "row_valid vdata i")
    case False
    then show ?thesis
      using IH lt by (simp add: cast_loop_null after_rows_Suc_null)
  next
    case True
    show ?thesis
      using IH by (simp add: cast_loop_ok [OF lt True row_passes_valid [OF pass True]]
          after_rows_Suc_valid [OF True])
  qed
qed

lemma take_before_update:
  "take (Suc i) ys = take (Suc i) (xs[i := v]) \<Longrightarrow> take i ys = take i xs"
proof -
  assume a: "take (Suc i) ys = take (Suc i) (xs[i := v])"
  have "take i ys = take i (take (Suc i) ys)" by simp
  also have "\<dots> = take i (take (Suc i) (xs[i := v]))" by (simp only: a)
  also have "\<dots> = take i xs" by simp
  finally show ?thesis .
qed

lemma take_before_Suc: "take (Suc i) ys = take (Suc i) xs \<Longrightarrow> take i ys = take i xs"
  using take_before_update [of i ys xs "xs ! i"] by simp

lemma weaken_new_calls:
  "\<forall>k \<in> set new. Suc i \<le> k \<and> k < count \<and> row_valid vdata k \<Longrightarrow>
   \<forall>k \<in> set new. i \<le> k \<and> k < count \<and> row_valid vdata k"
  by (blast intro: Suc_leD)

lemma cast_loop_frame:
  "cast_loop vdata count i st = (b, st') \<Longrightarrow>
   length (address_data st') = length (address_data st)
   \<and> length (mask_data st') = length (mask_data st)
   \<and> length (result_validity st') = length (result_validity st)
   \<and> take i (address_data st') = take i (address_data st)
   \<and> take i (mask_data st') = take i (mask_data st)
   \<and> take i (result_validity st') = take i (result_validity st)
   \<and> (\<exists>new. parser_calls st' = parser_calls st @ new
         \<and> (\<forall>k \<in> set new. i \<le> k \<and> k < count \<and> row_valid vdata k))"
proof (induction vdata count i st rule: cast_loop.induct)
  case (1 vdata count i st)
  show ?case
  proof (cases "i < count")
    case False
    with "1.prems" show ?thesis by (simp add: cast_loop_done)
  next
    case lt: True
    show ?thesis
    proof (cases "row_valid vdata i")
      case False
      let ?s = "st\<lparr>result_validity := (result_validity st)[i := False]\<rparr>"
      from False lt "1.prems" have run: "cast_loop vdata count (i + 1) ?s = (b, st')"
        by (simp add: cast_loop_null)
      have nv: "\<not> validity vdata ! (sel vdata ! i)" using False by (simp add: row_valid_def)
      from "1.IH"(1) [OF lt refl nv run]
      obtain new where f: "length (address_data st') = length (address_data st)"
        "length (mask_data st') = length (mask_data st)"
        "length (result_validity st') = length (result_validity st)"
        "take (Suc i) (address_data st') = take (Suc i) (address_data st)"
        "take (Suc i) (mask_data st') = take (Suc i) (mask_data st)"
        "take (Suc i) (result_validity st') = take (Suc i) ((result_validity st)[i := False])"
        "parser_calls st' = parser_calls st @ new"
        "\<forall>k \<in> set new. Suc i \<le> k \<and> k < count \<and> row_valid vdata k"
        by auto
      from f(1-3) take_before_Suc [OF f(4)] take_before_Suc [OF f(5)] take_before_update [OF f(6)]
        f(7) weaken_new_calls [OF f(8)]
      show ?thesis by blast
    next
      case True
      then have v: "\<not> \<not> validity vdata ! (sel vdata ! i)" by (simp add: row_valid_def)
      show ?thesis
      proof (cases "TryParseIPAddress (row_text vdata i)")
        case (Inl e)
        with "1.prems" lt True show ?thesis
          by (auto simp: cast_loop_fail AssignError_def)
      next
        case (Inr inet)
        let ?s = "st\<lparr>address_data := (address_data st)[i := address inet],
           mask_data := (mask_data st)[i := ip_mask inet],
           parser_calls := parser_calls st @ [i]\<rparr>"
        from Inr lt True "1.prems" have run: "cast_loop vdata count (i + 1) ?s = (b, st')"
          by (simp add: cast_loop_ok)
        have p: "TryParseIPAddress (data vdata ! (sel vdata ! i)) = Inr inet"
          using Inr by (simp add: row_text_def)
        from "1.IH"(2) [OF lt refl v p run]
        obtain new where f: "length (address_data st') = length (address_data st)"
          "length (mask_data st') = length (mask_data st)"
          "length (result_validity st') = length (result_validity st)"
          "take (Suc i) (address_data st') = take (Suc i) ((address_data st)[i := address inet])"
          "take (Suc i) (mask_data st') = take (Suc i) ((mask_data st)[i := ip_mask inet])"
          "take (Suc i) (result_validity st') = take (Suc i) (result_validity st)"
          "parser_calls st' = parser_calls st @ i # new"
          "\<forall>k \<in> set new. Suc i \<le> k \<and> k < count \<and> row_valid vdata k"
          by auto
        have "\<forall>k \<in> set (i # new). i \<le> k \<and> k < count \<and> row_valid vdata k"
          using weaken_new_calls [OF f(8)] lt True by simp
        with f(1-3) take_before_update [OF f(4)] take_before_update [OF f(5)]
          take_before_Suc [OF f(6)] f(7)
        show ?thesis by blast
      qed
    qed
  qed
qed

lemma written_none: "\<forall>j<i. \<not> P j \<Longrightarrow> written i P g xs = xs"
  by (rule nth_equalityI) (auto simp: nth_written)

lemma new_calls_append [simp]: "parser_calls st' = parser_calls st @ new \<Longrightarrow> new_calls st st' = new"
  by (simp add: new_calls_def)

text \<open>The loop returns at the first row whose parse fails, in the state built so far.\<close>

lemma cast_loop_stops:
  assumes "f < count" and "\<forall>j<f. row_passes vdata j" and "row_valid vdata f"
    and "TryParseIPAddress (row_text vdata f) = Inl e"
  shows "VarcharToINETCast vdata count st =
     (False, AssignError e ((after_rows vdata f st)
        \<lparr>parser_calls := parser_calls (after_rows vdata f st) @ [f]\<rparr>))"
proof -
  have "VarcharToINETCast vdata count st = cast_loop vdata count f (after_rows vdata f st)"
    unfolding VarcharToINETCast_def using assms(1,2) by (intro cast_loop_reach) simp_all
  also have "\<dots> = (False, AssignError e ((after_rows vdata f st)
        \<lparr>parser_calls := parser_calls (after_rows vdata f st) @ [f]\<rparr>))"
    using assms(1,3,4) by (rule cast_loop_fail)
  finally show ?thesis .
qed

lemma nth_of_take_Suc: "take (Suc i) ys = take (Suc i) xs \<Longrightarrow> ys ! i = xs ! i"
proof -
  assume "take (Suc i) ys = take (Suc i) xs"
  then have "take (Suc i) ys ! i = take (Suc i) xs ! i" by simp
  then show ?thesis by simp
qed

section \<open>End of input while a number is expected\<close>

lemma parse_number_end:
  "length input \<le> c \<Longrightarrow>
   parse_number input c number_count addr = Inl (IPAddressError input ''Expected a number'')"
proof -
  assume "length input \<le> c"
  then have "scan_digits input c = c" by (intro scan_digits_stop) simp
  then show ?thesis by (simp add: parse_number.simps [of input c number_count addr])
qed

lemma octet_dot_then_end:
  assumes "octet_run d" and "input = pre @ d @ ''.''" and "p = length pre" and "number_count < 3"
  shows "parse_number input p number_count addr = Inl (IPAddressError input ''Expected a number'')"
proof -
  have "parse_number input p number_count addr
      = parse_number input (p + length d + 1) (number_count + 1)
          (addr + push_bit (8 * number_count) (ucast (octet_of d)))"
    by (rule octet_then_dot [where d = d and pre = pre and rest = "[]"]) (simp_all add: assms)
  also have "\<dots> = Inl (IPAddressError input ''Expected a number'')"
    by (rule parse_number_end) (simp add: assms)
  finally show ?thesis .
qed

section \<open>Properties of the parser\<close>

text \<open>
  C1. The claim: on \<open>a.b.c.d/m\<close> the parse succeeds with mask \<open>m\<close>. The code converts the
  fourth octet's digit run a second time instead of the digits after the slash: on
  \<open>1.2.3.4/24\<close> it returns mask 4.
\<close>

theorem mask_of_1_2_3_4_slash_24:
  "TryParseIPAddress ''1.2.3.4/24'' = Inr \<lparr>address = 0x04030201, ip_mask = 4\<rparr>"
  by code_simp

text \<open>
  C2. The claim: the address of a successful parse is non-negative, the four octets
  zero-extended. The code accumulates in a signed 32-bit integer and converts that to the
  128-bit field: on \<open>255.255.255.255\<close> the stored address is \<open>-1\<close>, and on \<open>0.0.0.128\<close> it
  is \<open>-2147483648\<close>.
\<close>

theorem address_of_255_255_255_255:
  "TryParseIPAddress ''255.255.255.255'' = Inr \<lparr>address = - 1, ip_mask = 32\<rparr>
   \<and> sint (- 1 :: hugeint_t) = - 1
   \<and> TryParseIPAddress ''0.0.0.128'' = Inr \<lparr>address = - 2147483648, ip_mask = 32\<rparr>
   \<and> sint (- 2147483648 :: hugeint_t) = - 2147483648"
  by code_simp

text \<open>
  C4. For octet runs \<open>a\<close>, \<open>b\<close>, \<open>c\<close>, \<open>d\<close> (digit runs of value at most 255), parsing
  \<open>a.b.c.d\<close> succeeds with mask 32, and bytes 0 to 3 of the 128-bit address, read as
  unsigned numbers, are the decimal values of \<open>a\<close>, \<open>b\<close>, \<open>c\<close>, \<open>d\<close>.
\<close>

theorem dotted_quad_roundtrip:
  assumes "octet_run a" "octet_run b" "octet_run c" "octet_run d"
  shows "\<exists>r. TryParseIPAddress (a @ ''.'' @ b @ ''.'' @ c @ ''.'' @ d) = Inr r
      \<and> ip_mask r = 32
      \<and> unat (ucast (drop_bit (8 * 0) (address r)) :: uint8_t) = decimal_value a
      \<and> unat (ucast (drop_bit (8 * 1) (address r)) :: uint8_t) = decimal_value b
      \<and> unat (ucast (drop_bit (8 * 2) (address r)) :: uint8_t) = decimal_value c
      \<and> unat (ucast (drop_bit (8 * 3) (address r)) :: uint8_t) = decimal_value d"
proof -
  let ?A = "pack4 (octet_of a) (octet_of b) (octet_of c) (octet_of d)"
  have "TryParseIPAddress (a @ ''.'' @ b @ ''.'' @ c @ ''.'' @ d @ [])
      = Inr \<lparr>address = scast ?A, ip_mask = 32\<rparr>"
    by (subst parse_four [OF assms]) (simp_all add: parse_mask_end)
  then show ?thesis
    using assms by (simp add: byte0 byte1 byte2 byte3 unat_octet_of)
qed

theorem dotted_quad_roundtrip_witness:
  "octet_run ''192'' \<and> octet_run ''168'' \<and> octet_run ''0'' \<and> octet_run ''255'' \<and>
   (\<exists>r. TryParseIPAddress ''192.168.0.255'' = Inr r \<and> ip_mask r = 32
      \<and> unat (ucast (drop_bit (8 * 0) (address r)) :: uint8_t) = 192
      \<and> unat (ucast (drop_bit (8 * 1) (address r)) :: uint8_t) = 168
      \<and> unat (ucast (drop_bit (8 * 2) (address r)) :: uint8_t) = 0
      \<and> unat (ucast (drop_bit (8 * 3) (address r)) :: uint8_t) = 255)"
proof -
  have h: "octet_run ''192''" "octet_run ''168''" "octet_run ''0''" "octet_run ''255''"
    by (simp_all add: octet_run_def digit_run_def is_digit_def decimal_value_def digit_value_def)
  have v: "decimal_value ''192'' = 192" "decimal_value ''168'' = 168" "decimal_value ''0'' = 0"
     "decimal_value ''255'' = 255"
    by (simp_all add: decimal_value_def digit_value_def)
  show ?thesis using h dotted_quad_roundtrip [OF h] by (simp add: v)
qed

text \<open>
  C7. On the empty string and on every input whose first character is not an ASCII digit
  the parse fails, and the message is
  \<^verbatim>\<open>Failed to convert string "<input>" to inet: Expected a number\<close> with the input verbatim.
\<close>

theorem no_leading_digit_expected_number:
  "input = [] \<or> \<not> is_digit (hd input) \<Longrightarrow>
   TryParseIPAddress input =
     Inl (''Failed to convert string '' @ [CHR 0x22] @ input @ [CHR 0x22]
          @ '' to inet: Expected a number'')"
proof -
  assume "input = [] \<or> \<not> is_digit (hd input)"
  then have "scan_digits input 0 = 0"
    by (subst scan_digits.simps) (auto simp: hd_conv_nth)
  then show ?thesis
    by (simp add: TryParseIPAddress_def parse_number.simps IPAddressError_def)
qed

theorem no_leading_digit_expected_number_witness:
  "TryParseIPAddress '''' =
     Inl (''Failed to convert string '' @ [CHR 0x22] @ [CHR 0x22] @ '' to inet: Expected a number'')
   \<and> \<not> is_digit (hd ''x1.2.3.4'')
   \<and> TryParseIPAddress ''x1.2.3.4'' =
     Inl (''Failed to convert string '' @ [CHR 0x22] @ ''x1.2.3.4'' @ [CHR 0x22]
          @ '' to inet: Expected a number'')"
proof -
  have h: "\<not> is_digit (hd ''x1.2.3.4'')" by (simp add: is_digit_def)
  show ?thesis
    using h no_leading_digit_expected_number [of "''''"]
      no_leading_digit_expected_number [of "''x1.2.3.4''"]
    by simp
qed

text \<open>
  C8. The claim: every input that reaches its end with fewer than four octets parsed
  fails with \<^verbatim>\<open>Expected a dot\<close>. An input that ends right after a dot, and the empty
  input, reach their end at \<^verbatim>\<open>parse_number\<close>, where the empty digit run is reported:
  \<open>1.2.3.\<close>, \<open>1.\<close> and the empty string fail with \<^verbatim>\<open>Expected a number\<close>.
\<close>

theorem trailing_dot_expected_number:
  "TryParseIPAddress ''1.2.3.'' = Inl (IPAddressError ''1.2.3.'' ''Expected a number'')
   \<and> TryParseIPAddress ''1.2.3.'' \<noteq> Inl (IPAddressError ''1.2.3.'' ''Expected a dot'')
   \<and> TryParseIPAddress ''1.'' = Inl (IPAddressError ''1.'' ''Expected a number'')
   \<and> TryParseIPAddress '''' = Inl (IPAddressError '''' ''Expected a number'')"
  by code_simp

text \<open>
  C8, amended. For octet runs \<open>a\<close>, \<open>b\<close>, \<open>c\<close>: an input that ends right after its
  first, second or third octet (\<open>a\<close>, \<open>a.b\<close>, \<open>a.b.c\<close>) fails with \<^verbatim>\<open>Expected a dot\<close>,
  as does \<^verbatim>\<open>parse_dot\<close> at the end of input in any state: there the end of input is
  reported as a missing dot, not as a missing number. An input that ends where a number is
  expected (the empty input, \<open>a.\<close>, \<open>a.b.\<close>, \<open>a.b.c.\<close>) fails with
  \<^verbatim>\<open>Expected a number\<close>, as does \<^verbatim>\<open>parse_number\<close> at the end of input in any state.
\<close>

theorem early_end_dot_or_number:
  assumes "octet_run a" "octet_run b" "octet_run c"
  shows "TryParseIPAddress a = Inl (IPAddressError a ''Expected a dot'')
    \<and> TryParseIPAddress (a @ ''.'' @ b) = Inl (IPAddressError (a @ ''.'' @ b) ''Expected a dot'')
    \<and> TryParseIPAddress (a @ ''.'' @ b @ ''.'' @ c)
        = Inl (IPAddressError (a @ ''.'' @ b @ ''.'' @ c) ''Expected a dot'')
    \<and> parse_dot input (length input) number_count addr
        = Inl (IPAddressError input ''Expected a dot'')
    \<and> TryParseIPAddress '''' = Inl (IPAddressError '''' ''Expected a number'')
    \<and> TryParseIPAddress (a @ ''.'') = Inl (IPAddressError (a @ ''.'') ''Expected a number'')
    \<and> TryParseIPAddress (a @ ''.'' @ b @ ''.'')
        = Inl (IPAddressError (a @ ''.'' @ b @ ''.'') ''Expected a number'')
    \<and> TryParseIPAddress (a @ ''.'' @ b @ ''.'' @ c @ ''.'')
        = Inl (IPAddressError (a @ ''.'' @ b @ ''.'' @ c @ ''.'') ''Expected a number'')
    \<and> parse_number input (length input) number_count addr
        = Inl (IPAddressError input ''Expected a number'')"
proof (intro conjI)
  show "TryParseIPAddress a = Inl (IPAddressError a ''Expected a dot'')"
    unfolding TryParseIPAddress_def
    by (rule octet_then_end [where d = a and pre = "[]"]) (simp_all add: assms)
next
  let ?inp = "a @ ''.'' @ b"
  have "parse_number ?inp 0 0 0
      = parse_number ?inp (length a + 1) 1 (0 + push_bit (8 * 0) (ucast (octet_of a)))"
    by (rule octet_then_dot [where d = a and pre = "[]" and rest = "b"]) (simp_all add: assms)
  also have "\<dots> = Inl (IPAddressError ?inp ''Expected a dot'')"
    by (rule octet_then_end [where d = b and pre = "a @ ''.''"]) (simp_all add: assms)
  finally show "TryParseIPAddress ?inp = Inl (IPAddressError ?inp ''Expected a dot'')"
    by (simp only: TryParseIPAddress_def)
next
  let ?inp = "a @ ''.'' @ b @ ''.'' @ c"
  have "parse_number ?inp 0 0 0
      = parse_number ?inp (length a + 1) 1 (0 + push_bit (8 * 0) (ucast (octet_of a)))"
    by (rule octet_then_dot [where d = a and pre = "[]" and rest = "b @ ''.'' @ c"])
       (simp_all add: assms)
  also have "\<dots> = parse_number ?inp (length a + length b + 2) 2
       (0 + push_bit (8 * 0) (ucast (octet_of a)) + push_bit (8 * 1) (ucast (octet_of b)))"
    by (rule octet_then_dot [where d = b and pre = "a @ ''.''" and rest = "c"])
       (simp_all add: assms)
  also have "\<dots> = Inl (IPAddressError ?inp ''Expected a dot'')"
    by (rule octet_then_end [where d = c and pre = "a @ ''.'' @ b @ ''.''"]) (simp_all add: assms)
  finally show "TryParseIPAddress ?inp = Inl (IPAddressError ?inp ''Expected a dot'')"
    by (simp only: TryParseIPAddress_def)
next
  show "parse_dot input (length input) number_count addr
      = Inl (IPAddressError input ''Expected a dot'')"
    by (rule parse_dot_end)
next
  show "TryParseIPAddress '''' = Inl (IPAddressError '''' ''Expected a number'')"
    unfolding TryParseIPAddress_def by (rule parse_number_end) simp
next
  show "TryParseIPAddress (a @ ''.'') = Inl (IPAddressError (a @ ''.'') ''Expected a number'')"
    unfolding TryParseIPAddress_def
    by (rule octet_dot_then_end [where d = a and pre = "[]"]) (simp_all add: assms)
next
  let ?inp = "a @ ''.'' @ b @ ''.''"
  have "parse_number ?inp 0 0 0
      = parse_number ?inp (length a + 1) 1 (0 + push_bit (8 * 0) (ucast (octet_of a)))"
    by (rule octet_then_dot [where d = a and pre = "[]" and rest = "b @ ''.''"])
       (simp_all add: assms)
  also have "\<dots> = Inl (IPAddressError ?inp ''Expected a number'')"
    by (rule octet_dot_then_end [where d = b and pre = "a @ ''.''"]) (simp_all add: assms)
  finally show "TryParseIPAddress ?inp = Inl (IPAddressError ?inp ''Expected a number'')"
    by (simp only: TryParseIPAddress_def)
next
  let ?inp = "a @ ''.'' @ b @ ''.'' @ c @ ''.''"
  have "parse_number ?inp 0 0 0
      = parse_number ?inp (length a + 1) 1 (0 + push_bit (8 * 0) (ucast (octet_of a)))"
    by (rule octet_then_dot [where d = a and pre = "[]" and rest = "b @ ''.'' @ c @ ''.''"])
       (simp_all add: assms)
  also have "\<dots> = parse_number ?inp (length a + length b + 2) 2
       (0 + push_bit (8 * 0) (ucast (octet_of a)) + push_bit (8 * 1) (ucast (octet_of b)))"
    by (rule octet_then_dot [where d = b and pre = "a @ ''.''" and rest = "c @ ''.''"])
       (simp_all add: assms)
  also have "\<dots> = Inl (IPAddressError ?inp ''Expected a number'')"
    by (rule octet_dot_then_end [where d = c and pre = "a @ ''.'' @ b @ ''.''"])
       (simp_all add: assms)
  finally show "TryParseIPAddress ?inp = Inl (IPAddressError ?inp ''Expected a number'')"
    by (simp only: TryParseIPAddress_def)
next
  show "parse_number input (length input) number_count addr
      = Inl (IPAddressError input ''Expected a number'')"
    by (rule parse_number_end) simp
qed

theorem early_end_dot_or_number_witness:
  "octet_run ''1'' \<and> octet_run ''2'' \<and> octet_run ''3''
   \<and> TryParseIPAddress ''1'' =
       Inl (''Failed to convert string '' @ [CHR 0x22] @ ''1'' @ [CHR 0x22]
            @ '' to inet: Expected a dot'')
   \<and> TryParseIPAddress ''1.2'' =
       Inl (''Failed to convert string '' @ [CHR 0x22] @ ''1.2'' @ [CHR 0x22]
            @ '' to inet: Expected a dot'')
   \<and> TryParseIPAddress ''1.2.3'' =
       Inl (''Failed to convert string '' @ [CHR 0x22] @ ''1.2.3'' @ [CHR 0x22]
            @ '' to inet: Expected a dot'')
   \<and> TryParseIPAddress ''1.'' =
       Inl (''Failed to convert string '' @ [CHR 0x22] @ ''1.'' @ [CHR 0x22]
            @ '' to inet: Expected a number'')
   \<and> TryParseIPAddress ''1.2.'' =
       Inl (''Failed to convert string '' @ [CHR 0x22] @ ''1.2.'' @ [CHR 0x22]
            @ '' to inet: Expected a number'')
   \<and> TryParseIPAddress ''1.2.3.'' =
       Inl (''Failed to convert string '' @ [CHR 0x22] @ ''1.2.3.'' @ [CHR 0x22]
            @ '' to inet: Expected a number'')"
proof -
  have h: "octet_run ''1''" "octet_run ''2''" "octet_run ''3''"
    by (simp_all add: octet_run_def digit_run_def is_digit_def decimal_value_def digit_value_def)
  show ?thesis
    using h early_end_dot_or_number [OF h, of "[]" 0 0] by (simp add: IPAddressError_def)
qed

text \<open>
  C9. After four octet runs and a slash the parse succeeds whatever follows the slash:
  the result does not depend on \<open>rest\<close>, and the mask is the value of the fourth octet's
  digit run.
\<close>

theorem slash_suffix_ignored:
  assumes "octet_run a" "octet_run b" "octet_run c" "octet_run d"
  shows "TryParseIPAddress (a @ ''.'' @ b @ ''.'' @ c @ ''.'' @ d @ ''/'' @ rest) =
       Inr \<lparr>address = scast (pack4 (octet_of a) (octet_of b) (octet_of c) (octet_of d)),
            ip_mask = ucast (octet_of d)\<rparr>
     \<and> unat (ucast (octet_of d) :: int32_t) = decimal_value d"
proof
  let ?inp = "a @ ''.'' @ b @ ''.'' @ c @ ''.'' @ d @ ''/'' @ rest"
  let ?A = "pack4 (octet_of a) (octet_of b) (octet_of c) (octet_of d)"
  have "TryParseIPAddress ?inp = parse_mask ?inp (length a + length b + length c + 3)
      (length a + length b + length c + 3 + length d) ?A"
    by (rule parse_four) (simp_all add: assms)
  also have "\<dots> = Inr \<lparr>address = scast ?A, ip_mask = ucast (octet_of d)\<rparr>"
    by (rule parse_mask_slash [where pre = "a @ ''.'' @ b @ ''.'' @ c @ ''.''" and rest = rest])
       (simp_all add: assms)
  finally show "TryParseIPAddress ?inp = Inr \<lparr>address = scast ?A, ip_mask = ucast (octet_of d)\<rparr>" .
next
  show "unat (ucast (octet_of d) :: int32_t) = decimal_value d"
    using unat_octet_of [OF assms(4)] by (simp add: unat_ucast_8_32)
qed

theorem slash_suffix_ignored_witness:
  "octet_run ''1'' \<and> octet_run ''2'' \<and> octet_run ''3'' \<and> octet_run ''4''
   \<and> TryParseIPAddress ''1.2.3.4/abc'' = Inr \<lparr>address = 0x04030201, ip_mask = 4\<rparr>
   \<and> TryParseIPAddress ''1.2.3.4/'' = Inr \<lparr>address = 0x04030201, ip_mask = 4\<rparr>"
proof -
  have h: "octet_run ''1''" "octet_run ''2''" "octet_run ''3''" "octet_run ''4''"
    by (simp_all add: octet_run_def digit_run_def is_digit_def decimal_value_def digit_value_def)
  have v: "octet_of ''1'' = 1" "octet_of ''2'' = 2" "octet_of ''3'' = 3" "octet_of ''4'' = 4"
    by (simp_all add: octet_of_def decimal_value_def digit_value_def)
  show ?thesis
    using h slash_suffix_ignored [OF h, of "''abc''"] slash_suffix_ignored [OF h, of "[]"]
    by (simp add: v pack4_def)
qed

text \<open>
  C10. On every input the jump machine returns within \<open>3 * length input + 3\<close> blocks,
  with the result of \<^verbatim>\<open>TryParseIPAddress\<close>; and no block moves the cursor backwards.
\<close>

theorem scan_terminates:
  "exec (3 * length input + 3) input initial_config = Some (TryParseIPAddress input)
   \<and> (case step input (l, c, start, number_count, addr) of
         Inl r \<Rightarrow> True
       | Inr (l', c', locals') \<Rightarrow> c \<le> c')"
proof
  show "exec (3 * length input + 3) input initial_config = Some (TryParseIPAddress input)"
    using exec_enough [of input initial_config "3 * length input + 3"]
    by (simp add: initial_config_def TryParseIPAddress_def)
next
  show "case step input (l, c, start, number_count, addr) of
         Inl r \<Rightarrow> True
       | Inr (l', c', locals') \<Rightarrow> c \<le> c'"
    by (cases l) (auto simp: Let_def split: option.splits)
qed

section \<open>Properties of the batch conversion\<close>

text \<open>
  C3. Let row \<open>i\<close> be the row at which the parser fails: it is valid, its parse returns
  the message \<open>e\<close>, and every row before it is null or parses. Then the batch conversion
  returns \<^verbatim>\<open>false\<close> with \<open>e\<close> in the error slot; the parser was invoked on the valid rows
  up to \<open>i\<close> and on no row after it; the address, mask and validity entries from row \<open>i\<close>
  on are as they were before the call; and each valid row before \<open>i\<close> holds the address
  and mask the parser returned for it.
\<close>

theorem first_failure_stops_batch:
  assumes "i < count" and "\<forall>j<i. row_passes vdata j" and "row_valid vdata i"
    and "TryParseIPAddress (row_text vdata i) = Inl e"
    and "count \<le> length (address_data st)" and "count \<le> length (mask_data st)"
  shows "\<exists>st'. VarcharToINETCast vdata count st = (False, st')
     \<and> error_message st' = Some e
     \<and> new_calls st st' = filter (row_valid vdata) [0..<Suc i]
     \<and> drop i (address_data st') = drop i (address_data st)
     \<and> drop i (mask_data st') = drop i (mask_data st)
     \<and> drop i (result_validity st') = drop i (result_validity st)
     \<and> (\<forall>j<i. row_valid vdata j \<longrightarrow>
           (\<exists>r. TryParseIPAddress (row_text vdata j) = Inr r
              \<and> address_data st' ! j = address r \<and> mask_data st' ! j = ip_mask r))"
proof -
  let ?s = "after_rows vdata i st"
  let ?st' = "AssignError e (?s\<lparr>parser_calls := parser_calls ?s @ [i]\<rparr>)"
  have "VarcharToINETCast vdata count st = cast_loop vdata count i ?s"
    unfolding VarcharToINETCast_def using assms(1,2) by (intro cast_loop_reach) simp_all
  also have "\<dots> = (False, ?st')"
    using assms(1,3,4) by (rule cast_loop_fail)
  finally have run: "VarcharToINETCast vdata count st = (False, ?st')" .
  have err: "error_message ?st' = Some e" by (simp add: AssignError_def)
  have calls: "new_calls st ?st' = filter (row_valid vdata) [0..<Suc i]"
    using assms(3) by (simp add: AssignError_def after_rows_def new_calls_def)
  have frame: "drop i (address_data ?st') = drop i (address_data st)"
    "drop i (mask_data ?st') = drop i (mask_data st)"
    "drop i (result_validity ?st') = drop i (result_validity st)"
    by (simp_all add: AssignError_def after_rows_def drop_written)
  have kept: "\<exists>r. TryParseIPAddress (row_text vdata j) = Inr r
       \<and> address_data ?st' ! j = address r \<and> mask_data ?st' ! j = ip_mask r"
    if "j < i" and "row_valid vdata j" for j
  proof -
    from that assms(2) have "TryParseIPAddress (row_text vdata j) = Inr (parsed vdata j)"
      by (simp add: row_passes_valid)
    moreover have "j < length (address_data st)" "j < length (mask_data st)"
      using that(1) assms(1,5,6) by simp_all
    ultimately show ?thesis
      using that by (simp add: AssignError_def after_rows_def nth_written)
  qed
  from run err calls frame kept show ?thesis by blast
qed

theorem first_failure_stops_batch_witness:
  "(2::nat) < 3 \<and> row_passes batch_ok_null_bad 0 \<and> row_passes batch_ok_null_bad 1
   \<and> row_valid batch_ok_null_bad 2
   \<and> TryParseIPAddress (row_text batch_ok_null_bad 2)
       = Inl (IPAddressError ''bad'' ''Expected a number'')
   \<and> 3 \<le> length (address_data fresh3) \<and> 3 \<le> length (mask_data fresh3)
   \<and> VarcharToINETCast batch_ok_null_bad 3 fresh3 =
       (False, \<lparr>address_data = [0x04030201, 0, 0], mask_data = [32, 0, 0],
                result_validity = [True, False, True],
                error_message = Some (IPAddressError ''bad'' ''Expected a number''),
                parser_calls = [0, 2]\<rparr>)
   \<and> (\<exists>st'. VarcharToINETCast batch_ok_null_bad 3 fresh3 = (False, st')
       \<and> error_message st' = Some (IPAddressError ''bad'' ''Expected a number'')
       \<and> new_calls fresh3 st' = filter (row_valid batch_ok_null_bad) [0..<Suc 2]
       \<and> drop 2 (address_data st') = drop 2 (address_data fresh3)
       \<and> drop 2 (mask_data st') = drop 2 (mask_data fresh3)
       \<and> drop 2 (result_validity st') = drop 2 (result_validity fresh3)
       \<and> (\<forall>j<2. row_valid batch_ok_null_bad j \<longrightarrow>
             (\<exists>r. TryParseIPAddress (row_text batch_ok_null_bad j) = Inr r
                \<and> address_data st' ! j = address r \<and> mask_data st' ! j = ip_mask r)))"
proof -
  have h1: "(2::nat) < 3" by simp
  have p0: "row_passes batch_ok_null_bad 0" by code_simp
  have p1: "row_passes batch_ok_null_bad 1" by code_simp
  have h2: "\<forall>j<2. row_passes batch_ok_null_bad j"
  proof (intro allI impI)
    fix j :: nat
    assume "j < 2"
    then have "j = 0 \<or> j = 1" by auto
    with p0 p1 show "row_passes batch_ok_null_bad j" by auto
  qed
  have h3: "row_valid batch_ok_null_bad 2" by code_simp
  have h4: "TryParseIPAddress (row_text batch_ok_null_bad 2)
      = Inl (IPAddressError ''bad'' ''Expected a number'')"
    by code_simp
  have h5: "3 \<le> length (address_data fresh3)" and h6: "3 \<le> length (mask_data fresh3)"
    by simp_all
  have ev: "VarcharToINETCast batch_ok_null_bad 3 fresh3 =
       (False, \<lparr>address_data = [0x04030201, 0, 0], mask_data = [32, 0, 0],
                result_validity = [True, False, True],
                error_message = Some (IPAddressError ''bad'' ''Expected a number''),
                parser_calls = [0, 2]\<rparr>)"
    by code_simp
  note t = first_failure_stops_batch [OF h1 h2 h3 h4 h5 h6]
  from h1 p0 p1 h3 h4 h5 h6 ev t show ?thesis by (intro conjI)
qed

text \<open>
  C5. The claim: every null row is marked null in the output. The loop returns at the
  first failing row, so a null row behind a failing one is never visited: in the batch
  \<^verbatim>\<open>["bad", null]\<close> row 1 is null and its output flag is still valid after the call.
\<close>

theorem null_row_after_failure_not_marked:
  "\<not> row_valid batch_bad_null 1
   \<and> fst (VarcharToINETCast batch_bad_null 2 fresh2) = False
   \<and> result_validity (snd (VarcharToINETCast batch_bad_null 2 fresh2)) ! 1 = True"
  by code_simp

text \<open>
  C5, amended. Let row \<open>i\<close> be a null row that the loop reaches (every row before it is
  null or parses). The call gets to row \<open>i\<close> in the state \<open>after_rows vdata i st\<close>; from
  any state \<open>s\<close> the loop at row \<open>i\<close> goes on to row \<open>i + 1\<close> with \<open>s\<close> changed in
  nothing but that row's flag, so there is no parser call and no error for it; and when
  the call returns, the row's flag is null and its address and mask entries are the ones
  it had before the call. In no batch is the parser invoked on a null row. A batch whose
  rows are all null returns \<^verbatim>\<open>true\<close> and leaves the state as it was but for the null flags
  of its rows: no parser invocation. A row \<open>i\<close> behind the first failing row \<open>f\<close> is never
  visited: the call returns \<^verbatim>\<open>false\<close>, the parser is not invoked on it, and its flag,
  address and mask entries are the ones it had before the call.
\<close>

theorem null_row_skipped:
  "(i < count \<and> \<not> row_valid vdata i \<and> (\<forall>j<i. row_passes vdata j) \<longrightarrow>
      VarcharToINETCast vdata count st = cast_loop vdata count i (after_rows vdata i st)
      \<and> cast_loop vdata count i s
          = cast_loop vdata count (Suc i) (s\<lparr>result_validity := (result_validity s)[i := False]\<rparr>)
      \<and> (i < length (result_validity st) \<longrightarrow>
           result_validity (snd (VarcharToINETCast vdata count st)) ! i = False)
      \<and> (i < length (address_data st) \<longrightarrow>
           address_data (snd (VarcharToINETCast vdata count st)) ! i = address_data st ! i)
      \<and> (i < length (mask_data st) \<longrightarrow>
           mask_data (snd (VarcharToINETCast vdata count st)) ! i = mask_data st ! i))
   \<and> (\<not> row_valid vdata i \<longrightarrow> i \<notin> set (new_calls st (snd (VarcharToINETCast vdata count st))))
   \<and> ((\<forall>k<count. \<not> row_valid vdata k) \<longrightarrow>
        VarcharToINETCast vdata count st
          = (True, st\<lparr>result_validity := written count (\<lambda>k. True) (\<lambda>k. False) (result_validity st)\<rparr>))
   \<and> (f < i \<and> f < count \<and> (\<forall>j<f. row_passes vdata j) \<and> row_valid vdata f
        \<and> isl (TryParseIPAddress (row_text vdata f)) \<longrightarrow>
        fst (VarcharToINETCast vdata count st) = False
        \<and> i \<notin> set (new_calls st (snd (VarcharToINETCast vdata count st)))
        \<and> (i < length (result_validity st) \<longrightarrow>
             result_validity (snd (VarcharToINETCast vdata count st)) ! i = result_validity st ! i)
        \<and> (i < length (address_data st) \<longrightarrow>
             address_data (snd (VarcharToINETCast vdata count st)) ! i = address_data st ! i)
        \<and> (i < length (mask_data st) \<longrightarrow>
             mask_data (snd (VarcharToINETCast vdata count st)) ! i = mask_data st ! i))"
proof -
  let ?V = "VarcharToINETCast vdata count st"
  have A: "?V = cast_loop vdata count i (after_rows vdata i st)
      \<and> cast_loop vdata count i s
          = cast_loop vdata count (Suc i) (s\<lparr>result_validity := (result_validity s)[i := False]\<rparr>)
      \<and> (i < length (result_validity st) \<longrightarrow> result_validity (snd ?V) ! i = False)
      \<and> (i < length (address_data st) \<longrightarrow> address_data (snd ?V) ! i = address_data st ! i)
      \<and> (i < length (mask_data st) \<longrightarrow> mask_data (snd ?V) ! i = mask_data st ! i)"
    if a: "i < count \<and> \<not> row_valid vdata i \<and> (\<forall>j<i. row_passes vdata j)"
  proof -
    let ?s = "after_rows vdata i st"
    let ?s' = "?s\<lparr>result_validity := (result_validity ?s)[i := False]\<rparr>"
    have reach: "?V = cast_loop vdata count i ?s"
      unfolding VarcharToINETCast_def using a by (intro cast_loop_reach) simp_all
    have stp: "cast_loop vdata count i t
        = cast_loop vdata count (Suc i) (t\<lparr>result_validity := (result_validity t)[i := False]\<rparr>)"
      for t using a by (simp add: cast_loop_null)
    have run: "?V = cast_loop vdata count (Suc i) ?s'" using reach stp [of ?s] by simp
    obtain b st' where r: "cast_loop vdata count (Suc i) ?s' = (b, st')"
      by (cases "cast_loop vdata count (Suc i) ?s'")
    from cast_loop_frame [OF r]
    have tk: "take (Suc i) (result_validity st') = take (Suc i) (result_validity ?s')"
      "take (Suc i) (address_data st') = take (Suc i) (address_data ?s')"
      "take (Suc i) (mask_data st') = take (Suc i) (mask_data ?s')"
      by simp_all
    have fin: "snd ?V = st'" by (simp add: run r)
    have v: "result_validity (snd ?V) ! i = False" if "i < length (result_validity st)"
      using nth_of_take_Suc [OF tk(1)] that by (simp add: fin after_rows_def)
    have ad: "address_data (snd ?V) ! i = address_data st ! i" if "i < length (address_data st)"
      using nth_of_take_Suc [OF tk(2)] that by (simp add: fin after_rows_def nth_written)
    have mk: "mask_data (snd ?V) ! i = mask_data st ! i" if "i < length (mask_data st)"
      using nth_of_take_Suc [OF tk(3)] that by (simp add: fin after_rows_def nth_written)
    from reach stp [of s] v ad mk show ?thesis by blast
  qed
  have B: "i \<notin> set (new_calls st (snd ?V))" if nv: "\<not> row_valid vdata i"
  proof -
    obtain b st' where r: "cast_loop vdata count 0 st = (b, st')"
      by (cases "cast_loop vdata count 0 st")
    from cast_loop_frame [OF r] obtain new where
      "parser_calls st' = parser_calls st @ new" "\<forall>k \<in> set new. row_valid vdata k" by auto
    with nv show ?thesis by (auto simp: VarcharToINETCast_def r)
  qed
  have C: "?V = (True, st\<lparr>result_validity :=
        written count (\<lambda>k. True) (\<lambda>k. False) (result_validity st)\<rparr>)"
    if nulls: "\<forall>k<count. \<not> row_valid vdata k"
  proof -
    from nulls have "\<forall>j<count. row_passes vdata j" by (simp add: row_passes_def)
    then have "?V = cast_loop vdata count count (after_rows vdata count st)"
      unfolding VarcharToINETCast_def by (intro cast_loop_reach) simp_all
    also have "\<dots> = (True, after_rows vdata count st)" by (simp add: cast_loop_done)
    also have "after_rows vdata count st
        = st\<lparr>result_validity := written count (\<lambda>k. True) (\<lambda>k. False) (result_validity st)\<rparr>"
    proof -
      have "filter (row_valid vdata) [0..<count] = []" using nulls by (simp add: filter_empty_conv)
      moreover have "written count (\<lambda>j. \<not> row_valid vdata j) (\<lambda>j. False) (result_validity st)
         = written count (\<lambda>k. True) (\<lambda>k. False) (result_validity st)"
        using nulls by (auto simp: written_def)
      ultimately show ?thesis using nulls by (simp add: after_rows_def written_none)
    qed
    finally show ?thesis .
  qed
  have D: "fst ?V = False \<and> i \<notin> set (new_calls st (snd ?V))
        \<and> (i < length (result_validity st) \<longrightarrow> result_validity (snd ?V) ! i = result_validity st ! i)
        \<and> (i < length (address_data st) \<longrightarrow> address_data (snd ?V) ! i = address_data st ! i)
        \<and> (i < length (mask_data st) \<longrightarrow> mask_data (snd ?V) ! i = mask_data st ! i)"
    if d: "f < i \<and> f < count \<and> (\<forall>j<f. row_passes vdata j) \<and> row_valid vdata f
        \<and> isl (TryParseIPAddress (row_text vdata f))"
  proof -
    from d obtain e where e: "TryParseIPAddress (row_text vdata f) = Inl e"
      by (cases "TryParseIPAddress (row_text vdata f)") auto
    have run: "?V = (False, AssignError e ((after_rows vdata f st)
        \<lparr>parser_calls := parser_calls (after_rows vdata f st) @ [f]\<rparr>))"
      using d e by (intro cast_loop_stops) simp_all
    have "i \<notin> set (new_calls st (snd ?V))"
      using d by (auto simp: run AssignError_def after_rows_def new_calls_def)
    moreover have "result_validity (snd ?V) ! i = result_validity st ! i"
      if "i < length (result_validity st)"
      using d that by (simp add: run AssignError_def after_rows_def nth_written)
    moreover have "address_data (snd ?V) ! i = address_data st ! i"
      if "i < length (address_data st)"
      using d that by (simp add: run AssignError_def after_rows_def nth_written)
    moreover have "mask_data (snd ?V) ! i = mask_data st ! i"
      if "i < length (mask_data st)"
      using d that by (simp add: run AssignError_def after_rows_def nth_written)
    ultimately show ?thesis by (simp add: run)
  qed
  from A B C D show ?thesis by blast
qed

theorem null_row_skipped_witness:
  "(1::nat) < 3 \<and> \<not> row_valid batch_ok_null_bad 1 \<and> row_passes batch_ok_null_bad 0
   \<and> (1::nat) < length (result_validity fresh3)
   \<and> (1::nat) < length (address_data fresh3) \<and> (1::nat) < length (mask_data fresh3)
   \<and> VarcharToINETCast batch_ok_null_bad 3 fresh3
       = cast_loop batch_ok_null_bad 3 1 (after_rows batch_ok_null_bad 1 fresh3)
   \<and> after_rows batch_ok_null_bad 1 fresh3
       = \<lparr>address_data = [0x04030201, 0, 0], mask_data = [32, 0, 0],
          result_validity = [True, True, True], error_message = None, parser_calls = [0]\<rparr>
   \<and> cast_loop batch_ok_null_bad 3 1 fresh3
       = cast_loop batch_ok_null_bad 3 (Suc 1)
           (fresh3\<lparr>result_validity := (result_validity fresh3)[1 := False]\<rparr>)
   \<and> result_validity (snd (VarcharToINETCast batch_ok_null_bad 3 fresh3)) ! 1 = False
   \<and> address_data (snd (VarcharToINETCast batch_ok_null_bad 3 fresh3)) ! 1 = address_data fresh3 ! 1
   \<and> mask_data (snd (VarcharToINETCast batch_ok_null_bad 3 fresh3)) ! 1 = mask_data fresh3 ! 1
   \<and> 1 \<notin> set (new_calls fresh3 (snd (VarcharToINETCast batch_ok_null_bad 3 fresh3)))
   \<and> \<not> row_valid batch_null_null 0 \<and> \<not> row_valid batch_null_null 1
   \<and> VarcharToINETCast batch_null_null 2 fresh2
       = (True, fresh2\<lparr>result_validity := [False, False]\<rparr>)
   \<and> (0::nat) < 1 \<and> (0::nat) < 2 \<and> row_valid batch_bad_null 0
   \<and> isl (TryParseIPAddress (row_text batch_bad_null 0))
   \<and> (1::nat) < length (result_validity fresh2)
   \<and> fst (VarcharToINETCast batch_bad_null 2 fresh2) = False
   \<and> 1 \<notin> set (new_calls fresh2 (snd (VarcharToINETCast batch_bad_null 2 fresh2)))
   \<and> result_validity (snd (VarcharToINETCast batch_bad_null 2 fresh2)) ! 1
       = result_validity fresh2 ! 1"
proof -
  have h1: "(1::nat) < 3" by simp
  have h2: "\<not> row_valid batch_ok_null_bad 1" by code_simp
  have p0: "row_passes batch_ok_null_bad 0" by code_simp
  have h3: "\<forall>j<1. row_passes batch_ok_null_bad j" using p0 by simp
  have h4: "(1::nat) < length (result_validity fresh3)"
    and h4a: "(1::nat) < length (address_data fresh3)"
    and h4m: "(1::nat) < length (mask_data fresh3)" by simp_all
  have ar: "after_rows batch_ok_null_bad 1 fresh3
       = \<lparr>address_data = [0x04030201, 0, 0], mask_data = [32, 0, 0],
          result_validity = [True, True, True], error_message = None, parser_calls = [0]\<rparr>"
    by code_simp
  have n0: "\<not> row_valid batch_null_null 0" and n1: "\<not> row_valid batch_null_null 1"
    by code_simp+
  have h5: "\<forall>k<2. \<not> row_valid batch_null_null k"
  proof (intro allI impI)
    fix k :: nat
    assume "k < 2"
    then have "k = 0 \<or> k = 1" by auto
    with n0 n1 show "\<not> row_valid batch_null_null k" by auto
  qed
  have w: "written 2 (\<lambda>k. True) (\<lambda>k. False) (result_validity fresh2) = [False, False]"
    by code_simp
  have d1: "(0::nat) < 1" and d2: "(0::nat) < 2" by simp_all
  have d3: "\<forall>j<0. row_passes batch_bad_null j" by simp
  have d4: "row_valid batch_bad_null 0" by code_simp
  have d5: "isl (TryParseIPAddress (row_text batch_bad_null 0))" by code_simp
  have d6: "(1::nat) < length (result_validity fresh2)" by simp
  note t1 = null_row_skipped [of 1 3 batch_ok_null_bad fresh3 fresh3 0]
  note t2 = null_row_skipped [of 0 2 batch_null_null fresh2 fresh2 0]
  note t3 = null_row_skipped [of 1 2 batch_bad_null fresh2 fresh2 0]
  from t1 h1 h2 h3 h4 h4a h4m have c1:
    "VarcharToINETCast batch_ok_null_bad 3 fresh3
       = cast_loop batch_ok_null_bad 3 1 (after_rows batch_ok_null_bad 1 fresh3)"
    and c1b: "cast_loop batch_ok_null_bad 3 1 fresh3
       = cast_loop batch_ok_null_bad 3 (Suc 1)
           (fresh3\<lparr>result_validity := (result_validity fresh3)[1 := False]\<rparr>)"
    and c2: "result_validity (snd (VarcharToINETCast batch_ok_null_bad 3 fresh3)) ! 1 = False"
    and c2a: "address_data (snd (VarcharToINETCast batch_ok_null_bad 3 fresh3)) ! 1
        = address_data fresh3 ! 1"
    and c2m: "mask_data (snd (VarcharToINETCast batch_ok_null_bad 3 fresh3)) ! 1
        = mask_data fresh3 ! 1"
    and c3: "1 \<notin> set (new_calls fresh3 (snd (VarcharToINETCast batch_ok_null_bad 3 fresh3)))"
    by blast+
  from t2 h5 have "VarcharToINETCast batch_null_null 2 fresh2
       = (True, fresh2\<lparr>result_validity :=
            written 2 (\<lambda>k. True) (\<lambda>k. False) (result_validity fresh2)\<rparr>)"
    by blast
  then have c4: "VarcharToINETCast batch_null_null 2 fresh2
       = (True, fresh2\<lparr>result_validity := [False, False]\<rparr>)"
    by (simp only: w)
  from t3 d1 d2 d3 d4 d5 d6 have c5: "fst (VarcharToINETCast batch_bad_null 2 fresh2) = False"
    and c6: "1 \<notin> set (new_calls fresh2 (snd (VarcharToINETCast batch_bad_null 2 fresh2)))"
    and c7: "result_validity (snd (VarcharToINETCast batch_bad_null 2 fresh2)) ! 1
       = result_validity fresh2 ! 1"
    by blast+
  from h1 h2 p0 h4 h4a h4m c1 ar c1b c2 c2a c2m c3 n0 n1 c4 d1 d2 d4 d5 d6 c5 c6 c7
  show ?thesis by (intro conjI)
qed

text \<open>
  C6. The reverse conversion throws \<^verbatim>\<open>InternalException("INET to Varchar cast")\<close> on
  every invocation, whatever its arguments: it never returns, neither \<^verbatim>\<open>false\<close> with an
  error message nor \<^verbatim>\<open>true\<close> with a rendering.
\<close>

theorem reverse_cast_always_throws:
  "INETToVarcharCast source result count parameters
     = Inl (InternalException ''INET to Varchar cast'')
   \<and> INETToVarcharCast source result count parameters \<noteq> Inr (ok, result')"
  by (simp add: INETToVarcharCast_def)

end
